theory Spec2Isabelle
  imports Main
begin

section \<open>Data model of the activity-feed filter (activityFeedFilter.user.js)\<close>

text \<open>
  An activity entry is a DOM node. The filter reads it only through a handful of
  selector queries, its class list and its text content, so a node is recorded by the
  outcome of exactly those reads:
  \<^item> \<open>repliesCount\<close>: \<^verbatim>\<open>node.querySelector('div.action.replies')?.querySelector('span.count')\<close> finds an element;
  \<^item> \<open>likesCount\<close>: the same below \<^verbatim>\<open>div.action.likes\<close>;
  \<^item> \<open>img\<close>, \<open>video\<close>, \<open>youtube\<close>: \<^verbatim>\<open>node.querySelector\<close> finds an \<^verbatim>\<open>img\<close>, a \<^verbatim>\<open>video\<close>, a \<^verbatim>\<open>span.youtube\<close>;
  \<^item> \<open>activityText\<close>, \<open>activityMessage\<close>: the class list contains \<^verbatim>\<open>activity-text\<close>, \<^verbatim>\<open>activity-message\<close>;
  \<^item> \<open>textContent\<close>: the node's text.
  A query result is used for its truthiness only, so it is a \<open>bool\<close>. A JavaScript
  string is a sequence of code units; the type \<open>'c\<close> of the code units is left open,
  since the filter only compares them for equality.
\<close>

record 'c node =
  repliesCount :: bool
  likesCount :: bool
  img :: bool
  video :: bool
  youtube :: bool
  activityText :: bool
  activityMessage :: bool
  textContent :: "'c list"

text \<open>
  The keys of \<^verbatim>\<open>CONDITIONS_MAP\<close>. \<^verbatim>\<open>ConfigValidator.validateLinkedConditions\<close> rejects a
  configuration whose linked conditions name anything else, so the names form a closed
  enumeration.
\<close>

datatype conditionName = Uncommented | Unliked | Text | Images | Videos | ContainsStrings

text \<open>
  An element of \<^verbatim>\<open>remove.containsStrings\<close> or of \<^verbatim>\<open>options.linkedConditions\<close> is either
  a bare value (\<^verbatim>\<open>typeof i === 'string'\<close>) or an array of values (\<^verbatim>\<open>Array.isArray(i)\<close>).
\<close>

datatype 'a nested = Elem 'a | Arr "'a list"

fun isArray :: "'a nested \<Rightarrow> bool" where
  "isArray (Elem x) = False"
| "isArray (Arr xs) = True"

fun isString :: "'a nested \<Rightarrow> bool" where
  "isString (Elem x) = True"
| "isString (Arr xs) = False"

text \<open>\<^verbatim>\<open>Array.prototype.flat()\<close> with its default depth 1.\<close>

fun flat :: "'a nested list \<Rightarrow> 'a list" where
  "flat [] = []"
| "flat (Elem x # rest) = x # flat rest"
| "flat (Arr xs # rest) = xs @ flat rest"

record 'c removeConfig =
  images :: bool
  videos :: bool
  text' :: bool
  uncommented :: bool
  unliked :: bool
  containsStrings :: "'c list nested list"

record optionsConfig =
  targetLoadCount :: nat
  caseSensitive :: bool
  reverseConditions :: bool
  linkedConditions :: "conditionName nested list"

record runOnConfig =
  home :: bool
  social :: bool
  profile :: bool

record 'c config =
  remove :: "'c removeConfig"
  options :: optionsConfig
  runOn :: runOnConfig

text \<open>The configuration the script ships with (the constant \<^verbatim>\<open>config\<close>).\<close>

definition defaultConfig :: "char config" where
  "defaultConfig =
     \<lparr> remove = \<lparr> images = False, videos = False, text' = False, uncommented = False,
                  unliked = False, containsStrings = [] \<rparr>,
       options = \<lparr> targetLoadCount = 2, caseSensitive = False, reverseConditions = False,
                   linkedConditions = [] \<rparr>,
       runOn = \<lparr> home = True, social = True, profile = False \<rparr> \<rparr>"

text \<open>
  \<^verbatim>\<open>remove[name]\<close> is a boolean for the five structural conditions and the array of term
  groups for \<^verbatim>\<open>containsStrings\<close>.
\<close>

datatype 'c removeValue = Flag bool | Terms "'c list nested list"

fun removeGet :: "'c removeConfig \<Rightarrow> conditionName \<Rightarrow> 'c removeValue" where
  "removeGet r Uncommented = Flag (uncommented r)"
| "removeGet r Unliked = Flag (unliked r)"
| "removeGet r Text = Flag (text' r)"
| "removeGet r Images = Flag (images r)"
| "removeGet r Videos = Flag (videos r)"
| "removeGet r ContainsStrings = Terms (containsStrings r)"

text \<open>\<^verbatim>\<open>v === true\<close>: an array is never strictly equal to \<^verbatim>\<open>true\<close>.\<close>

fun strictlyTrue :: "'c removeValue \<Rightarrow> bool" where
  "strictlyTrue (Flag b) = b"
| "strictlyTrue (Terms ts) = False"

text \<open>\<^verbatim>\<open>v.length > 0\<close>: a boolean has no \<^verbatim>\<open>length\<close>, and \<^verbatim>\<open>undefined > 0\<close> is false.\<close>

fun lengthPositive :: "'c removeValue \<Rightarrow> bool" where
  "lengthPositive (Flag b) = False"
| "lengthPositive (Terms ts) = (length ts > 0)"

text \<open>The truthiness of \<^verbatim>\<open>v\<close>: every array is truthy, the empty one too.\<close>

fun truthy :: "'c removeValue \<Rightarrow> bool" where
  "truthy (Flag b) = b"
| "truthy (Terms ts) = True"

section \<open>Strings\<close>

text \<open>
  \<^verbatim>\<open>String.prototype.toLowerCase\<close> is the host's Unicode case mapping. The filter
  does not depend on what it maps to what, so it is a parameter of every function below
  that reaches it, named \<open>toLowerCase\<close>: what is proved holds for the host's mapping,
  whatever it is.

  The sample evaluations further down run on ASCII text held in \<open>char\<close>, where the
  host's mapping is the one that sends \<^verbatim>\<open>A\<close>..\<^verbatim>\<open>Z\<close> to \<^verbatim>\<open>a\<close>..\<^verbatim>\<open>z\<close> and leaves every
  other character as it is.
\<close>

definition asciiToLowerChar :: "char \<Rightarrow> char" where
  "asciiToLowerChar c =
     (let k = (of_char c :: nat) in if 65 \<le> k \<and> k \<le> 90 then char_of (k + 32) else c)"

definition asciiToLowerCase :: "string \<Rightarrow> string" where
  "asciiToLowerCase s = map asciiToLowerChar s"

text \<open>\<^verbatim>\<open>t.startsWith(s)\<close> and \<^verbatim>\<open>t.includes(s)\<close>: \<open>s\<close> occurs in \<open>t\<close> as a contiguous run.\<close>

fun startsWith :: "'c list \<Rightarrow> 'c list \<Rightarrow> bool" where
  "startsWith t [] = True"
| "startsWith [] (c # s) = False"
| "startsWith (d # t) (c # s) = (d = c \<and> startsWith t s)"

fun str_includes :: "'c list \<Rightarrow> 'c list \<Rightarrow> bool" where
  "str_includes [] s = (s = [])"
| "str_includes (d # t) s = (startsWith (d # t) s \<or> str_includes t s)"

section \<open>The atomic predicates of ActivityHandler\<close>

definition shouldRemoveImage :: "'c node \<Rightarrow> bool" where
  "shouldRemoveImage n = img n"

definition shouldRemoveVideo :: "'c node \<Rightarrow> bool" where
  "shouldRemoveVideo n = (video n \<or> youtube n)"

definition shouldRemoveText :: "'c node \<Rightarrow> bool" where
  "shouldRemoveText n =
     ((activityText n \<or> activityMessage n) \<and> \<not> (shouldRemoveImage n \<or> shouldRemoveVideo n))"

definition shouldRemoveUncommented :: "'c node \<Rightarrow> bool" where
  "shouldRemoveUncommented n = (\<not> repliesCount n)"

definition shouldRemoveUnliked :: "'c node \<Rightarrow> bool" where
  "shouldRemoveUnliked n = (\<not> likesCount n)"

text \<open>The two local functions of \<^verbatim>\<open>shouldRemoveStrings\<close>, with what they close over.\<close>

definition containsString ::
  "('c list \<Rightarrow> 'c list) \<Rightarrow> bool \<Rightarrow> 'c list \<Rightarrow> 'c list \<Rightarrow> bool" where
  "containsString toLowerCase caseSens nodeText strings =
     (if \<not> caseSens then str_includes (toLowerCase nodeText) (toLowerCase strings)
      else str_includes nodeText strings)"

fun checkStrings ::
  "('c list \<Rightarrow> 'c list) \<Rightarrow> bool \<Rightarrow> 'c list \<Rightarrow> 'c list nested \<Rightarrow> bool" where
  "checkStrings toLowerCase caseSens nodeText (Arr strings) =
     list_all (\<lambda>str. containsString toLowerCase caseSens nodeText str) strings"
| "checkStrings toLowerCase caseSens nodeText (Elem strings) = containsString toLowerCase caseSens nodeText strings"

definition shouldRemoveStrings ::
  "('c list \<Rightarrow> 'c list) \<Rightarrow> 'c config \<Rightarrow> 'c node \<Rightarrow> bool \<Rightarrow> bool" where
  "shouldRemoveStrings toLowerCase cfg n reversed =
     (if length (flat (containsStrings (remove cfg))) = 0 then False
      else if reversed
        then \<not> list_ex (checkStrings toLowerCase (caseSensitive (options cfg)) (textContent n))
                 (containsStrings (remove cfg))
        else list_ex (checkStrings toLowerCase (caseSensitive (options cfg)) (textContent n))
                 (containsStrings (remove cfg)))"

section \<open>The condition evaluator (ActivityHandler.removeEntry)\<close>

text \<open>
  \<^verbatim>\<open>CONDITIONS_MAP\<close>, in insertion order: the order in which \<^verbatim>\<open>Array.from\<close> and the
  spread \<^verbatim>\<open>[...this.CONDITIONS_MAP]\<close> list its entries.
\<close>

definition CONDITIONS_MAP ::
  "('c list \<Rightarrow> 'c list) \<Rightarrow> 'c config \<Rightarrow> (conditionName \<times> ('c node \<Rightarrow> bool \<Rightarrow> bool)) list" where
  "CONDITIONS_MAP toLowerCase cfg =
     [ (Uncommented, \<lambda>n reverse. if reverse then \<not> shouldRemoveUncommented n else shouldRemoveUncommented n),
       (Unliked, \<lambda>n reverse. if reverse then \<not> shouldRemoveUnliked n else shouldRemoveUnliked n),
       (Text, \<lambda>n reverse. if reverse then \<not> shouldRemoveText n else shouldRemoveText n),
       (Images, \<lambda>n reverse. if reverse then \<not> shouldRemoveImage n else shouldRemoveImage n),
       (Videos, \<lambda>n reverse. if reverse then \<not> shouldRemoveVideo n else shouldRemoveVideo n),
       (ContainsStrings, \<lambda>n reverse. shouldRemoveStrings toLowerCase cfg n reverse) ]"

text \<open>
  \<^verbatim>\<open>this.CONDITIONS_MAP.get(condition)\<close>. Every name of the enumeration is a key
  (lemma \<open>CONDITIONS_MAP_total\<close> below), so the lookup never yields \<^verbatim>\<open>undefined\<close>.
\<close>

definition CONDITIONS_MAP_get ::
  "('c list \<Rightarrow> 'c list) \<Rightarrow> 'c config \<Rightarrow> conditionName \<Rightarrow> 'c node \<Rightarrow> bool \<Rightarrow> bool" where
  "CONDITIONS_MAP_get toLowerCase cfg condition = the (map_of (CONDITIONS_MAP toLowerCase cfg) condition)"

definition checkLinkedConditions ::
  "('c list \<Rightarrow> 'c list) \<Rightarrow> 'c config \<Rightarrow> 'c node \<Rightarrow> conditionName list \<Rightarrow> bool" where
  "checkLinkedConditions toLowerCase cfg n conditionList =
     (if reverseConditions (options cfg)
      then list_ex (\<lambda>condition. CONDITIONS_MAP_get toLowerCase cfg condition n (reverseConditions (options cfg)))
             conditionList
      else list_all (\<lambda>condition. CONDITIONS_MAP_get toLowerCase cfg condition n (reverseConditions (options cfg)))
             conditionList)"

definition LINKED_TRUE :: int where "LINKED_TRUE = 1"
definition LINKED_FALSE :: int where "LINKED_FALSE = 0"
definition LINKED_NONE :: int where "LINKED_NONE = - 1"

text \<open>The bare values of a nested list; on a list of bare values only, the list itself.\<close>

fun bareValues :: "'a nested list \<Rightarrow> 'a list" where
  "bareValues [] = []"
| "bareValues (Elem x # rest) = x # bareValues rest"
| "bareValues (Arr xs # rest) = bareValues rest"

fun asArray :: "'a nested \<Rightarrow> 'a list" where
  "asArray (Arr xs) = xs"
| "asArray (Elem x) = [x]"

text \<open>The constant \<^verbatim>\<open>conditions\<close> of \<^verbatim>\<open>shouldRemoveByLinkedConditions\<close>.\<close>

definition conditions :: "'a nested list \<Rightarrow> 'a list list" where
  "conditions linked =
     (if list_all isString linked \<and> \<not> list_ex isArray linked
      then [bareValues linked]
      else map asArray linked)"

definition shouldRemoveByLinkedConditions ::
  "('c list \<Rightarrow> 'c list) \<Rightarrow> 'c config \<Rightarrow> 'c node \<Rightarrow> int" where
  "shouldRemoveByLinkedConditions toLowerCase cfg n =
     (if length (flat (linkedConditions (options cfg))) = 0 then LINKED_NONE
      else
        let checkResult = map (\<lambda>c. checkLinkedConditions toLowerCase cfg n c)
                            (conditions (linkedConditions (options cfg)))
        in if True \<in> set checkResult
              \<and> (\<not> reverseConditions (options cfg) \<or> False \<notin> set checkResult)
           then LINKED_TRUE else LINKED_FALSE)"

definition shouldSkip :: "'c config \<Rightarrow> conditionName \<Rightarrow> bool" where
  "shouldSkip cfg condition = (condition \<in> set (flat (linkedConditions (options cfg))))"

definition shouldRemoveNode ::
  "('c list \<Rightarrow> 'c list) \<Rightarrow> 'c config \<Rightarrow> 'c node \<Rightarrow> bool" where
  "shouldRemoveNode toLowerCase cfg n =
     (let linkedResult = shouldRemoveByLinkedConditions toLowerCase cfg n in
      if reverseConditions (options cfg) then
        let checkedConditions =
              map (\<lambda>(name, predicate). predicate n (reverseConditions (options cfg)))
                (filter (\<lambda>(name, predicate). \<not> shouldSkip cfg name
                           \<and> (strictlyTrue (removeGet (remove cfg) name)
                                \<or> lengthPositive (removeGet (remove cfg) name)))
                   (CONDITIONS_MAP toLowerCase cfg))
        in linkedResult \<noteq> LINKED_FALSE \<and> False \<notin> set checkedConditions
             \<and> (linkedResult = LINKED_TRUE \<or> True \<in> set checkedConditions)
      else
        linkedResult = LINKED_TRUE
          \<or> list_ex (\<lambda>(name, predicate). \<not> shouldSkip cfg name
                        \<and> truthy (removeGet (remove cfg) name)
                        \<and> predicate n (reverseConditions (options cfg)))
               (CONDITIONS_MAP toLowerCase cfg))"

text \<open>
  The handler object: its counter and its configuration. \<^verbatim>\<open>removeEntry\<close> either calls
  \<^verbatim>\<open>node.remove()\<close>, reported here as \<open>True\<close> beside the new handler, or increments
  the counter. The counter is a JavaScript number that only ever holds a count of entries
  (exact below \<open>2 ^ 53\<close>); it is a natural number here.
\<close>

record 'c activityHandler =
  currentLoadCount :: nat
  handlerConfig :: "'c config"

definition newActivityHandler :: "'c config \<Rightarrow> 'c activityHandler" where
  "newActivityHandler cfg = \<lparr> currentLoadCount = 0, handlerConfig = cfg \<rparr>"

definition removeEntry ::
  "('c list \<Rightarrow> 'c list) \<Rightarrow> 'c activityHandler \<Rightarrow> 'c node \<Rightarrow> bool \<times> 'c activityHandler" where
  "removeEntry toLowerCase this n =
     (if shouldRemoveNode toLowerCase (handlerConfig this) n then (True, this)
      else (False, this\<lparr>currentLoadCount := currentLoadCount this + 1\<rparr>))"

definition resetState :: "'c activityHandler \<Rightarrow> 'c activityHandler" where
  "resetState this = this\<lparr>currentLoadCount := 0\<rparr>"

text \<open>
  The methods of ActivityHandler as calls on the handler object, each returning the
  handler it leaves behind: the predicates assign to no field.
\<close>

datatype 'c handlerCall =
    CallRemoveEntry "'c node"
  | CallShouldRemoveStrings "'c node" bool
  | CallShouldRemoveText "'c node"
  | CallShouldRemoveVideo "'c node"
  | CallShouldRemoveImage "'c node"
  | CallShouldRemoveUncommented "'c node"
  | CallShouldRemoveUnliked "'c node"
  | CallResetState

fun handlerStep ::
  "('c list \<Rightarrow> 'c list) \<Rightarrow> 'c activityHandler \<Rightarrow> 'c handlerCall \<Rightarrow> 'c activityHandler" where
  "handlerStep toLowerCase this (CallRemoveEntry n) = snd (removeEntry toLowerCase this n)"
| "handlerStep toLowerCase this CallResetState = resetState this"
| "handlerStep toLowerCase this (CallShouldRemoveStrings n reversed) = this"
| "handlerStep toLowerCase this (CallShouldRemoveText n) = this"
| "handlerStep toLowerCase this (CallShouldRemoveVideo n) = this"
| "handlerStep toLowerCase this (CallShouldRemoveImage n) = this"
| "handlerStep toLowerCase this (CallShouldRemoveUncommented n) = this"
| "handlerStep toLowerCase this (CallShouldRemoveUnliked n) = this"

section \<open>The notions the claims are stated in\<close>

text \<open>
  The atomic predicate of a condition name: the \<^verbatim>\<open>shouldRemove...\<close> method its
  \<^verbatim>\<open>CONDITIONS_MAP\<close> entry calls, for \<^verbatim>\<open>containsStrings\<close> the matcher run without
  reversal.
\<close>

fun atomic ::
  "('c list \<Rightarrow> 'c list) \<Rightarrow> 'c config \<Rightarrow> conditionName \<Rightarrow> 'c node \<Rightarrow> bool" where
  "atomic toLowerCase cfg Uncommented n = shouldRemoveUncommented n"
| "atomic toLowerCase cfg Unliked n = shouldRemoveUnliked n"
| "atomic toLowerCase cfg Text n = shouldRemoveText n"
| "atomic toLowerCase cfg Images n = shouldRemoveImage n"
| "atomic toLowerCase cfg Videos n = shouldRemoveVideo n"
| "atomic toLowerCase cfg ContainsStrings n = shouldRemoveStrings toLowerCase cfg n False"

text \<open>
  The effective predicate the evaluator uses: the \<^verbatim>\<open>CONDITIONS_MAP\<close> entry applied to
  the node and the configured reversal flag, as every call site in \<^verbatim>\<open>removeEntry\<close>
  applies it.
\<close>

definition effective ::
  "('c list \<Rightarrow> 'c list) \<Rightarrow> 'c config \<Rightarrow> conditionName \<Rightarrow> 'c node \<Rightarrow> bool" where
  "effective toLowerCase cfg name n = CONDITIONS_MAP_get toLowerCase cfg name n (reverseConditions (options cfg))"

text \<open>The values \<^verbatim>\<open>checkResult\<close> holds: one check per normalized group.\<close>

definition groupResults ::
  "('c list \<Rightarrow> 'c list) \<Rightarrow> 'c config \<Rightarrow> 'c node \<Rightarrow> bool list" where
  "groupResults toLowerCase cfg n =
     map (checkLinkedConditions toLowerCase cfg n) (conditions (linkedConditions (options cfg)))"

text \<open>
  The specification's wording of "enabled": the \<^verbatim>\<open>remove\<close> entry is \<^verbatim>\<open>true\<close> for a
  structural condition, a non-empty term sequence for \<^verbatim>\<open>containsStrings\<close>.
\<close>

fun spec_enabled :: "'c config \<Rightarrow> conditionName \<Rightarrow> bool" where
  "spec_enabled cfg ContainsStrings = (containsStrings (remove cfg) \<noteq> [])"
| "spec_enabled cfg Uncommented = uncommented (remove cfg)"
| "spec_enabled cfg Unliked = unliked (remove cfg)"
| "spec_enabled cfg Text = text' (remove cfg)"
| "spec_enabled cfg Images = images (remove cfg)"
| "spec_enabled cfg Videos = videos (remove cfg)"

text \<open>
  The specification's wording of the string matcher: a text contains a string when the
  string occurs in it; a single string matches when the text contains it, a group of
  strings when the text contains every one of them; a non-empty sequence of term groups
  matches when one of its groups does, an empty one never.
  The comparison is case-folded, by the case mapping \<open>toLowerCase\<close> on both sides,
  unless it is case-sensitive.
\<close>

definition occursIn :: "'c list \<Rightarrow> 'c list \<Rightarrow> bool" where
  "occursIn s t = (\<exists>p q. t = p @ s @ q)"

definition spec_contains ::
  "('c list \<Rightarrow> 'c list) \<Rightarrow> bool \<Rightarrow> 'c list \<Rightarrow> 'c list \<Rightarrow> bool" where
  "spec_contains toLowerCase caseSens t s =
     (if caseSens then occursIn s t else occursIn (toLowerCase s) (toLowerCase t))"

fun spec_groupMatches ::
  "('c list \<Rightarrow> 'c list) \<Rightarrow> bool \<Rightarrow> 'c list \<Rightarrow> 'c list nested \<Rightarrow> bool" where
  "spec_groupMatches toLowerCase caseSens t (Elem s) = spec_contains toLowerCase caseSens t s"
| "spec_groupMatches toLowerCase caseSens t (Arr ss) = (\<forall>s \<in> set ss. spec_contains toLowerCase caseSens t s)"

definition spec_matches ::
  "('c list \<Rightarrow> 'c list) \<Rightarrow> 'c list \<Rightarrow> 'c list nested list \<Rightarrow> bool \<Rightarrow> bool" where
  "spec_matches toLowerCase t termGroups caseSens =
     (termGroups \<noteq> [] \<and> (\<exists>g \<in> set termGroups. spec_groupMatches toLowerCase caseSens t g))"

section \<open>Sample entries and configurations\<close>

definition plainNode :: "char node" where
  "plainNode = \<lparr> repliesCount = False, likesCount = False, img = False, video = False,
                 youtube = False, activityText = True, activityMessage = False,
                 textContent = ''only foo here'' \<rparr>"

definition commentedNode :: "char node" where
  "commentedNode = \<lparr> repliesCount = True, likesCount = False, img = False, video = False,
                     youtube = False, activityText = True, activityMessage = False,
                     textContent = ''this has FOO and bar'' \<rparr>"

definition mediaNode :: "char node" where
  "mediaNode = \<lparr> repliesCount = True, likesCount = True, img = True, video = False,
                 youtube = True, activityText = False, activityMessage = False,
                 textContent = ''contains baz'' \<rparr>"

definition imageNode :: "char node" where
  "imageNode = \<lparr> repliesCount = True, likesCount = True, img = True, video = False,
                 youtube = False, activityText = False, activityMessage = False,
                 textContent = ''a picture'' \<rparr>"

definition uncommentedConfig :: "char config" where
  "uncommentedConfig = defaultConfig\<lparr>remove := (remove defaultConfig)\<lparr>uncommented := True\<rparr>\<rparr>"

definition reversedConfig :: "char config" where
  "reversedConfig = defaultConfig\<lparr>options := (options defaultConfig)\<lparr>reverseConditions := True\<rparr>\<rparr>"

definition reversedUncommentedConfig :: "char config" where
  "reversedUncommentedConfig =
     uncommentedConfig\<lparr>options := (options uncommentedConfig)\<lparr>reverseConditions := True\<rparr>\<rparr>"

definition linkedMediaConfig :: "char config" where
  "linkedMediaConfig =
     defaultConfig\<lparr>options := (options defaultConfig)\<lparr>linkedConditions := [Arr [Images, Videos]]\<rparr>\<rparr>"

definition emptyGroupConfig :: "char config" where
  "emptyGroupConfig =
     defaultConfig\<lparr>options := (options defaultConfig)\<lparr>linkedConditions := [Arr [], Arr [Images]]\<rparr>\<rparr>"

definition reversedEmptyGroupConfig :: "char config" where
  "reversedEmptyGroupConfig =
     emptyGroupConfig\<lparr>options := (options emptyGroupConfig)\<lparr>reverseConditions := True\<rparr>\<rparr>"

definition stringsConfig :: "char config" where
  "stringsConfig =
     defaultConfig\<lparr>remove := (remove defaultConfig)
       \<lparr>containsStrings := [Arr [''foo'', ''bar''], Elem ''baz'']\<rparr>\<rparr>"

definition linkedStringsConfig :: "char config" where
  "linkedStringsConfig =
     defaultConfig
       \<lparr>remove := (remove defaultConfig)\<lparr>containsStrings := [Elem ''foo'']\<rparr>,
        options := (options defaultConfig)
          \<lparr>linkedConditions := [Elem ContainsStrings, Elem Uncommented]\<rparr>\<rparr>"

definition emptyTermGroupConfig :: "char config" where
  "emptyTermGroupConfig =
     defaultConfig\<lparr>remove := (remove defaultConfig)\<lparr>containsStrings := [Arr []]\<rparr>\<rparr>"

section \<open>Basic facts\<close>

subsection \<open>Strings\<close>

lemma startsWith_iff: "startsWith t s \<longleftrightarrow> (\<exists>q. t = s @ q)"
  by (induction t s rule: startsWith.induct) auto

lemma str_includes_iff: "str_includes t s \<longleftrightarrow> (\<exists>p q. t = p @ s @ q)"
proof (induction t)
  case Nil
  then show ?case by simp
next
  case (Cons d t)
  have "(\<exists>p q. d # t = p @ s @ q) \<longleftrightarrow> (\<exists>q. d # t = s @ q) \<or> (\<exists>p q. t = p @ s @ q)"
  proof
    assume "\<exists>p q. d # t = p @ s @ q"
    then obtain p q where pq: "d # t = p @ s @ q" by blast
    show "(\<exists>q. d # t = s @ q) \<or> (\<exists>p q. t = p @ s @ q)"
    proof (cases p)
      case Nil
      with pq show ?thesis by auto
    next
      case (Cons e p')
      with pq have "t = p' @ s @ q" by simp
      then show ?thesis by blast
    qed
  next
    assume "(\<exists>q. d # t = s @ q) \<or> (\<exists>p q. t = p @ s @ q)"
    then show "\<exists>p q. d # t = p @ s @ q"
    proof
      assume "\<exists>q. d # t = s @ q"
      then obtain q where "d # t = [] @ s @ q" by auto
      then show ?thesis by blast
    next
      assume "\<exists>p q. t = p @ s @ q"
      then obtain p q where "d # t = (d # p) @ s @ q" by auto
      then show ?thesis by blast
    qed
  qed
  with Cons show ?case by (simp add: startsWith_iff del: startsWith.simps)
qed

lemma occursIn_code [code]: "occursIn s t = str_includes t s"
  by (simp add: occursIn_def str_includes_iff)

lemma containsString_spec: "containsString toLowerCase caseSens t s = spec_contains toLowerCase caseSens t s"
  by (simp add: containsString_def spec_contains_def occursIn_code)

lemma checkStrings_spec: "checkStrings toLowerCase caseSens t g = spec_groupMatches toLowerCase caseSens t g"
  by (cases g) (simp_all add: containsString_spec list_all_iff)

subsection \<open>Nested lists\<close>

lemma flat_Nil_iff: "flat xs = [] \<longleftrightarrow> (\<forall>g \<in> set xs. g = Arr [])"
  by (induction xs rule: flat.induct) auto

lemma flat_eq_concat: "flat xs = concat (map asArray xs)"
  by (induction xs rule: flat.induct) simp_all

lemma asArray_case: "asArray i = (case i of Arr g \<Rightarrow> g | Elem name \<Rightarrow> [name])"
  by (cases i) simp_all

lemma bareValues_map_Elem: "bareValues (map Elem names) = names"
  by (induction names) simp_all

lemma all_strings_no_array: "list_all isString xs \<longleftrightarrow> \<not> list_ex isArray xs"
proof (induction xs)
  case Nil
  show ?case by simp
next
  case (Cons x xs)
  then show ?case by (cases x) simp_all
qed

lemma bareValues_flat: "list_all isString xs \<Longrightarrow> bareValues xs = flat xs"
  by (induction xs rule: flat.induct) simp_all

lemma concat_conditions: "concat (conditions linked) = flat linked"
  by (simp add: conditions_def bareValues_flat flat_eq_concat)

lemma empty_group_in_conditions:
  assumes "Arr [] \<in> set linked"
  shows "[] \<in> set (conditions linked)"
proof -
  have "isArray (Arr [])" by simp
  with assms have "\<exists>i \<in> set linked. isArray i" by (rule bexI[rotated])
  then have "list_ex isArray linked" by (simp add: list_ex_iff)
  then have "conditions linked = map asArray linked" by (simp add: conditions_def)
  moreover from assms have "asArray (Arr []) \<in> set (map asArray linked)"
    by (simp only: set_map) (rule imageI)
  ultimately show ?thesis by simp
qed

subsection \<open>The condition map\<close>

lemma CONDITIONS_MAP_total: "map_of (CONDITIONS_MAP toLowerCase cfg) name \<noteq> None"
  by (cases name) (simp_all add: CONDITIONS_MAP_def)

lemma CONDITIONS_MAP_get_simps:
  "CONDITIONS_MAP_get toLowerCase cfg Uncommented n r = (if r then \<not> shouldRemoveUncommented n else shouldRemoveUncommented n)"
  "CONDITIONS_MAP_get toLowerCase cfg Unliked n r = (if r then \<not> shouldRemoveUnliked n else shouldRemoveUnliked n)"
  "CONDITIONS_MAP_get toLowerCase cfg Text n r = (if r then \<not> shouldRemoveText n else shouldRemoveText n)"
  "CONDITIONS_MAP_get toLowerCase cfg Images n r = (if r then \<not> shouldRemoveImage n else shouldRemoveImage n)"
  "CONDITIONS_MAP_get toLowerCase cfg Videos n r = (if r then \<not> shouldRemoveVideo n else shouldRemoveVideo n)"
  "CONDITIONS_MAP_get toLowerCase cfg ContainsStrings n r = shouldRemoveStrings toLowerCase cfg n r"
  by (simp_all add: CONDITIONS_MAP_get_def CONDITIONS_MAP_def)

lemma CONDITIONS_MAP_entries:
  "CONDITIONS_MAP toLowerCase cfg = map (\<lambda>name. (name, CONDITIONS_MAP_get toLowerCase cfg name))
                          [Uncommented, Unliked, Text, Images, Videos, ContainsStrings]"
  by (simp add: CONDITIONS_MAP_def CONDITIONS_MAP_get_def)

lemma all_names: "set [Uncommented, Unliked, Text, Images, Videos, ContainsStrings] = UNIV"
proof -
  have "x \<in> set [Uncommented, Unliked, Text, Images, Videos, ContainsStrings]" for x
    by (cases x) simp_all
  then show ?thesis by blast
qed

lemma effective_plain: "\<not> reverseConditions (options cfg) \<Longrightarrow> effective toLowerCase cfg name n = atomic toLowerCase cfg name n"
  by (cases name) (simp_all add: effective_def CONDITIONS_MAP_get_simps)

lemma shouldRemoveStrings_empty:
  "containsStrings (remove cfg) = [] \<Longrightarrow> shouldRemoveStrings toLowerCase cfg n r = False"
  by (simp add: shouldRemoveStrings_def)

lemma truthy_enabled:
  "(truthy (removeGet (remove cfg) name) \<and> atomic toLowerCase cfg name n)
     = (spec_enabled cfg name \<and> atomic toLowerCase cfg name n)"
  by (cases name) (auto simp: shouldRemoveStrings_empty)

lemma enabled_iff:
  "(strictlyTrue (removeGet (remove cfg) name) \<or> lengthPositive (removeGet (remove cfg) name))
     = spec_enabled cfg name"
  by (cases name) auto

lemma LINKED_distinct:
  "LINKED_TRUE \<noteq> LINKED_FALSE" "LINKED_TRUE \<noteq> LINKED_NONE" "LINKED_FALSE \<noteq> LINKED_NONE"
  "LINKED_FALSE \<noteq> LINKED_TRUE" "LINKED_NONE \<noteq> LINKED_TRUE" "LINKED_NONE \<noteq> LINKED_FALSE"
  by (simp_all add: LINKED_TRUE_def LINKED_FALSE_def LINKED_NONE_def)

section \<open>The per-group check and the aggregated linked result\<close>

text \<open>
  Claim C4. For every entry, every configuration and every group of condition names, the
  per-group check is the conjunction of the effective predicates of the group's names when
  \<^verbatim>\<open>reverseConditions\<close> is false, and their disjunction when it is true.
\<close>

theorem checkLinkedConditions_quantifier:
  "checkLinkedConditions toLowerCase cfg n g =
     (if reverseConditions (options cfg) then (\<exists>name \<in> set g. effective toLowerCase cfg name n)
      else (\<forall>name \<in> set g. effective toLowerCase cfg name n))"
  by (simp add: checkLinkedConditions_def effective_def list_ex_iff list_all_iff)

theorem checkLinkedConditions_quantifier_witness:
  "\<not> reverseConditions (options linkedMediaConfig)
   \<and> checkLinkedConditions asciiToLowerCase linkedMediaConfig mediaNode [Images, Videos]
   \<and> effective asciiToLowerCase linkedMediaConfig Images mediaNode
   \<and> effective asciiToLowerCase linkedMediaConfig Videos mediaNode
   \<and> reverseConditions (options reversedUncommentedConfig)
   \<and> checkLinkedConditions asciiToLowerCase reversedUncommentedConfig commentedNode [Uncommented, Images]
   \<and> (\<exists>name \<in> set [Uncommented, Images]. effective asciiToLowerCase reversedUncommentedConfig name commentedNode)"
proof -
  have r: "\<not> reverseConditions (options linkedMediaConfig)" by code_simp
  have c: "checkLinkedConditions asciiToLowerCase linkedMediaConfig mediaNode [Images, Videos]" by code_simp
  have r': "reverseConditions (options reversedUncommentedConfig)" by code_simp
  have c': "checkLinkedConditions asciiToLowerCase reversedUncommentedConfig commentedNode [Uncommented, Images]"
    by code_simp
  from checkLinkedConditions_quantifier [of asciiToLowerCase linkedMediaConfig mediaNode "[Images, Videos]"]
    checkLinkedConditions_quantifier [of asciiToLowerCase reversedUncommentedConfig commentedNode "[Uncommented, Images]"]
    r c r' c'
  show ?thesis by simp
qed

text \<open>
  Claim C3. The aggregated linked result is one of the three values \<open>LINKED_NONE\<close>,
  \<open>LINKED_TRUE\<close>, \<open>LINKED_FALSE\<close>. It is \<open>LINKED_NONE\<close> exactly when no name occurs in
  \<^verbatim>\<open>linkedConditions\<close>. Otherwise it is \<open>LINKED_TRUE\<close> exactly when the per-group checks
  contain a \<open>True\<close> and, under \<^verbatim>\<open>reverseConditions\<close>, no \<open>False\<close>; and \<open>LINKED_FALSE\<close> in
  every remaining case.
\<close>

theorem shouldRemoveByLinkedConditions_tristate:
  "shouldRemoveByLinkedConditions toLowerCase cfg n \<in> {LINKED_NONE, LINKED_TRUE, LINKED_FALSE}
   \<and> (shouldRemoveByLinkedConditions toLowerCase cfg n = LINKED_NONE
        \<longleftrightarrow> set (flat (linkedConditions (options cfg))) = {})
   \<and> (shouldRemoveByLinkedConditions toLowerCase cfg n = LINKED_TRUE
        \<longleftrightarrow> set (flat (linkedConditions (options cfg))) \<noteq> {}
            \<and> True \<in> set (groupResults toLowerCase cfg n)
            \<and> (reverseConditions (options cfg) \<longrightarrow> False \<notin> set (groupResults toLowerCase cfg n)))
   \<and> (shouldRemoveByLinkedConditions toLowerCase cfg n = LINKED_FALSE
        \<longleftrightarrow> set (flat (linkedConditions (options cfg))) \<noteq> {}
            \<and> \<not> (True \<in> set (groupResults toLowerCase cfg n)
                  \<and> (reverseConditions (options cfg) \<longrightarrow> False \<notin> set (groupResults toLowerCase cfg n))))"
  unfolding shouldRemoveByLinkedConditions_def groupResults_def Let_def
  by (simp add: LINKED_distinct)

theorem shouldRemoveByLinkedConditions_tristate_witness:
  "shouldRemoveByLinkedConditions asciiToLowerCase linkedMediaConfig mediaNode = LINKED_TRUE
   \<and> shouldRemoveByLinkedConditions asciiToLowerCase linkedMediaConfig imageNode = LINKED_FALSE
   \<and> shouldRemoveByLinkedConditions asciiToLowerCase defaultConfig imageNode = LINKED_NONE
   \<and> True \<in> set (groupResults asciiToLowerCase linkedMediaConfig mediaNode)"
proof -
  have f: "set (flat (linkedConditions (options linkedMediaConfig))) \<noteq> {}" by code_simp
  have e: "set (flat (linkedConditions (options defaultConfig))) = {}" by code_simp
  have t: "True \<in> set (groupResults asciiToLowerCase linkedMediaConfig mediaNode)" by code_simp
  have n: "True \<notin> set (groupResults asciiToLowerCase linkedMediaConfig imageNode)" by code_simp
  have r: "\<not> reverseConditions (options linkedMediaConfig)" by code_simp
  from shouldRemoveByLinkedConditions_tristate [of asciiToLowerCase linkedMediaConfig mediaNode]
    shouldRemoveByLinkedConditions_tristate [of asciiToLowerCase linkedMediaConfig imageNode]
    shouldRemoveByLinkedConditions_tristate [of asciiToLowerCase defaultConfig imageNode] f e t n r
  show ?thesis by blast
qed

section \<open>The decision\<close>

text \<open>
  Claim C1. With \<^verbatim>\<open>reverseConditions\<close> set, the entry is discarded exactly when the
  aggregated linked result is not \<open>LINKED_FALSE\<close>, no enabled condition outside
  \<^verbatim>\<open>linkedConditions\<close> has a false effective value, and either the linked result is
  \<open>LINKED_TRUE\<close> or some enabled condition outside \<^verbatim>\<open>linkedConditions\<close> has a true
  effective value.
\<close>

theorem shouldRemoveNode_reversed:
  assumes "reverseConditions (options cfg)"
  shows "shouldRemoveNode toLowerCase cfg n \<longleftrightarrow>
           shouldRemoveByLinkedConditions toLowerCase cfg n \<noteq> LINKED_FALSE
           \<and> (\<forall>name. spec_enabled cfg name \<and> name \<notin> set (flat (linkedConditions (options cfg)))
                 \<longrightarrow> effective toLowerCase cfg name n)
           \<and> (shouldRemoveByLinkedConditions toLowerCase cfg n = LINKED_TRUE
               \<or> (\<exists>name. spec_enabled cfg name
                     \<and> name \<notin> set (flat (linkedConditions (options cfg)))
                     \<and> effective toLowerCase cfg name n))"
proof -
  define checked where "checked =
    map (\<lambda>(name, predicate). predicate n (reverseConditions (options cfg)))
      (filter (\<lambda>(name, predicate). \<not> shouldSkip cfg name
                 \<and> (strictlyTrue (removeGet (remove cfg) name)
                      \<or> lengthPositive (removeGet (remove cfg) name)))
         (CONDITIONS_MAP toLowerCase cfg))"
  have set_checked: "set checked =
      {effective toLowerCase cfg name n | name.
         spec_enabled cfg name \<and> name \<notin> set (flat (linkedConditions (options cfg)))}"
    unfolding checked_def CONDITIONS_MAP_entries filter_map set_map set_filter all_names
    by (auto simp: enabled_iff shouldSkip_def effective_def comp_def image_iff)
  have "False \<notin> set checked \<longleftrightarrow>
      (\<forall>name. spec_enabled cfg name \<and> name \<notin> set (flat (linkedConditions (options cfg)))
         \<longrightarrow> effective toLowerCase cfg name n)"
    unfolding set_checked by auto
  moreover have "True \<in> set checked \<longleftrightarrow>
      (\<exists>name. spec_enabled cfg name \<and> name \<notin> set (flat (linkedConditions (options cfg)))
         \<and> effective toLowerCase cfg name n)"
    unfolding set_checked by auto
  ultimately show ?thesis
    using assms unfolding shouldRemoveNode_def Let_def checked_def[symmetric] by simp
qed

theorem shouldRemoveNode_reversed_witness:
  "reverseConditions (options reversedUncommentedConfig)
   \<and> shouldRemoveNode asciiToLowerCase reversedUncommentedConfig commentedNode
   \<and> \<not> shouldRemoveNode asciiToLowerCase reversedUncommentedConfig plainNode
   \<and> effective asciiToLowerCase reversedUncommentedConfig Uncommented commentedNode
   \<and> \<not> effective asciiToLowerCase reversedUncommentedConfig Uncommented plainNode"
proof -
  have r: "reverseConditions (options reversedUncommentedConfig)" by code_simp
  have d: "shouldRemoveNode asciiToLowerCase reversedUncommentedConfig commentedNode" by code_simp
  have e: "spec_enabled reversedUncommentedConfig Uncommented
           \<and> Uncommented \<notin> set (flat (linkedConditions (options reversedUncommentedConfig)))"
    by code_simp
  have k: "\<not> effective asciiToLowerCase reversedUncommentedConfig Uncommented plainNode" by code_simp
  from shouldRemoveNode_reversed [OF r, of asciiToLowerCase commentedNode]
    shouldRemoveNode_reversed [OF r, of asciiToLowerCase plainNode] d r e k
  show ?thesis by blast
qed

text \<open>
  Claim C2. With \<^verbatim>\<open>reverseConditions\<close> unset, the entry is discarded exactly when the
  aggregated linked result is \<open>LINKED_TRUE\<close> or some enabled condition outside
  \<^verbatim>\<open>linkedConditions\<close> has a true effective value; and the effective value of every
  condition is then its atomic value.
\<close>

theorem shouldRemoveNode_plain:
  assumes "\<not> reverseConditions (options cfg)"
  shows "(shouldRemoveNode toLowerCase cfg n \<longleftrightarrow>
            shouldRemoveByLinkedConditions toLowerCase cfg n = LINKED_TRUE
            \<or> (\<exists>name. spec_enabled cfg name
                  \<and> name \<notin> set (flat (linkedConditions (options cfg)))
                  \<and> effective toLowerCase cfg name n))
         \<and> (\<forall>name. effective toLowerCase cfg name n = atomic toLowerCase cfg name n)"
proof
  have eq: "effective toLowerCase cfg name n = atomic toLowerCase cfg name n" for name
    using assms by (rule effective_plain)
  then show "\<forall>name. effective toLowerCase cfg name n = atomic toLowerCase cfg name n" ..
  have "list_ex (\<lambda>(name, predicate). \<not> shouldSkip cfg name
                   \<and> truthy (removeGet (remove cfg) name)
                   \<and> predicate n (reverseConditions (options cfg))) (CONDITIONS_MAP toLowerCase cfg)
        \<longleftrightarrow> (\<exists>name. \<not> shouldSkip cfg name \<and> truthy (removeGet (remove cfg) name)
                \<and> effective toLowerCase cfg name n)"
    unfolding CONDITIONS_MAP_entries list_ex_iff set_map all_names effective_def by auto
  also have "\<dots> \<longleftrightarrow> (\<exists>name. spec_enabled cfg name
                        \<and> name \<notin> set (flat (linkedConditions (options cfg)))
                        \<and> effective toLowerCase cfg name n)"
    using truthy_enabled[where cfg = cfg and n = n and toLowerCase = toLowerCase]
    by (auto simp: eq shouldSkip_def)
  finally show "shouldRemoveNode toLowerCase cfg n \<longleftrightarrow>
           shouldRemoveByLinkedConditions toLowerCase cfg n = LINKED_TRUE
           \<or> (\<exists>name. spec_enabled cfg name
                 \<and> name \<notin> set (flat (linkedConditions (options cfg)))
                 \<and> effective toLowerCase cfg name n)"
    using assms by (simp add: shouldRemoveNode_def Let_def)
qed

theorem shouldRemoveNode_plain_witness:
  "\<not> reverseConditions (options uncommentedConfig)
   \<and> shouldRemoveNode asciiToLowerCase uncommentedConfig plainNode
   \<and> \<not> shouldRemoveNode asciiToLowerCase uncommentedConfig commentedNode
   \<and> effective asciiToLowerCase uncommentedConfig Uncommented plainNode
   \<and> \<not> effective asciiToLowerCase uncommentedConfig Uncommented commentedNode"
proof -
  have r: "\<not> reverseConditions (options uncommentedConfig)" by code_simp
  have a: "atomic asciiToLowerCase uncommentedConfig Uncommented plainNode" by code_simp
  have b: "\<not> atomic asciiToLowerCase uncommentedConfig Uncommented commentedNode" by code_simp
  have e: "spec_enabled uncommentedConfig Uncommented
           \<and> Uncommented \<notin> set (flat (linkedConditions (options uncommentedConfig)))"
    by code_simp
  have k: "\<not> shouldRemoveNode asciiToLowerCase uncommentedConfig commentedNode" by code_simp
  from shouldRemoveNode_plain [OF r, of asciiToLowerCase plainNode] shouldRemoveNode_plain [OF r, of asciiToLowerCase commentedNode]
    r a b e k
  show ?thesis by blast
qed

section \<open>Reversal and the atomic predicates\<close>

text \<open>
  Claim C5, amended. With \<^verbatim>\<open>reverseConditions\<close> set, the effective predicate is the
  negation of the atomic predicate for the five structural conditions, and for
  \<^verbatim>\<open>containsStrings\<close> when its configured terms hold at least one string. When they hold
  none (the sequence is empty, or holds empty groups only) the effective predicate of
  \<^verbatim>\<open>containsStrings\<close> is false, as the atomic one is: the guard at the head of
  \<^verbatim>\<open>shouldRemoveStrings\<close> answers before the reversal is looked at.
\<close>

theorem effective_reversed:
  assumes "reverseConditions (options cfg)"
  shows "effective toLowerCase cfg name n =
           (if name = ContainsStrings \<and> flat (containsStrings (remove cfg)) = [] then False
            else \<not> atomic toLowerCase cfg name n)"
  using assms
  by (cases name) (simp_all add: effective_def CONDITIONS_MAP_get_simps shouldRemoveStrings_def)

theorem effective_reversed_witness:
  "reverseConditions (options reversedUncommentedConfig)
   \<and> effective asciiToLowerCase reversedUncommentedConfig Uncommented commentedNode
   \<and> \<not> atomic asciiToLowerCase reversedUncommentedConfig Uncommented commentedNode
   \<and> \<not> effective asciiToLowerCase reversedUncommentedConfig ContainsStrings commentedNode"
proof -
  have r: "reverseConditions (options reversedUncommentedConfig)" by code_simp
  have a: "\<not> atomic asciiToLowerCase reversedUncommentedConfig Uncommented commentedNode" by code_simp
  have e: "flat (containsStrings (remove reversedUncommentedConfig)) = []" by code_simp
  from effective_reversed [OF r, of asciiToLowerCase Uncommented commentedNode]
    effective_reversed [OF r, of asciiToLowerCase ContainsStrings commentedNode] r a e
  show ?thesis by simp
qed

text \<open>
  The claim as it was stated fails for \<^verbatim>\<open>containsStrings\<close> with no configured term:
  under reversal the effective value is false, and so is the atomic value, not its
  negation.
\<close>

theorem effective_negates_atomic_counterexample:
  "reverseConditions (options reversedConfig)
   \<and> containsStrings (remove reversedConfig) = []
   \<and> effective asciiToLowerCase reversedConfig ContainsStrings plainNode
       \<noteq> (\<not> atomic asciiToLowerCase reversedConfig ContainsStrings plainNode)"
  by code_simp

section \<open>The string matcher\<close>

text \<open>
  Claim C7, amended. The string matcher returns false when the term groups hold no string
  at all, which is the case exactly when every element of the sequence is an empty group
  (the empty sequence included); otherwise it returns the disjunction over the groups,
  where a single string matches iff the text contains it and a group of strings matches
  iff the text contains every string of the group, text and string both taken through
  \<open>toLowerCase\<close> before they are compared unless \<^verbatim>\<open>caseSensitive\<close> is set. This holds
  for every case mapping \<open>toLowerCase\<close>, the host's among them.
\<close>

theorem shouldRemoveStrings_matches:
  "shouldRemoveStrings toLowerCase cfg n False =
     (flat (containsStrings (remove cfg)) \<noteq> []
      \<and> spec_matches toLowerCase (textContent n) (containsStrings (remove cfg)) (caseSensitive (options cfg)))
   \<and> (flat (containsStrings (remove cfg)) = []
        \<longleftrightarrow> (\<forall>g \<in> set (containsStrings (remove cfg)). g = Arr []))"
proof
  show "shouldRemoveStrings toLowerCase cfg n False =
     (flat (containsStrings (remove cfg)) \<noteq> []
      \<and> spec_matches toLowerCase (textContent n) (containsStrings (remove cfg)) (caseSensitive (options cfg)))"
    by (cases "containsStrings (remove cfg)")
       (simp_all add: shouldRemoveStrings_def spec_matches_def list_ex_iff checkStrings_spec)
  show "flat (containsStrings (remove cfg)) = []
          \<longleftrightarrow> (\<forall>g \<in> set (containsStrings (remove cfg)). g = Arr [])"
    by (rule flat_Nil_iff)
qed

theorem shouldRemoveStrings_matches_witness:
  "shouldRemoveStrings asciiToLowerCase stringsConfig commentedNode False
   \<and> shouldRemoveStrings asciiToLowerCase stringsConfig mediaNode False
   \<and> \<not> shouldRemoveStrings asciiToLowerCase stringsConfig plainNode False
   \<and> spec_matches asciiToLowerCase (textContent commentedNode) (containsStrings (remove stringsConfig))
        (caseSensitive (options stringsConfig))
   \<and> \<not> spec_matches asciiToLowerCase (textContent plainNode) (containsStrings (remove stringsConfig))
        (caseSensitive (options stringsConfig))"
proof -
  have a: "shouldRemoveStrings asciiToLowerCase stringsConfig commentedNode False" by code_simp
  have b: "shouldRemoveStrings asciiToLowerCase stringsConfig mediaNode False" by code_simp
  have c: "\<not> shouldRemoveStrings asciiToLowerCase stringsConfig plainNode False" by code_simp
  have f: "flat (containsStrings (remove stringsConfig)) \<noteq> []" by code_simp
  from shouldRemoveStrings_matches [of asciiToLowerCase stringsConfig commentedNode]
    shouldRemoveStrings_matches [of asciiToLowerCase stringsConfig plainNode] a b c f
  show ?thesis by blast
qed

text \<open>
  The claim as it was stated fails on a non-empty sequence whose only element is an empty
  group: the disjunction over the groups holds there, since the text contains every string
  of the empty group, and the matcher returns false.
\<close>

theorem shouldRemoveStrings_empty_group_counterexample:
  "containsStrings (remove emptyTermGroupConfig) \<noteq> []
   \<and> \<not> shouldRemoveStrings asciiToLowerCase emptyTermGroupConfig plainNode False
   \<and> spec_matches asciiToLowerCase (textContent plainNode) (containsStrings (remove emptyTermGroupConfig))
        (caseSensitive (options emptyTermGroupConfig))"
  by code_simp

section \<open>Normalization of the linked conditions\<close>

text \<open>
  Claim C8. A sequence of bare condition names is normalized to one group holding all of
  them; a sequence with at least one subsequence is normalized element by element, a
  subsequence becoming a group and a bare name a singleton group; and the names of the
  flattened sequence are the union of the names of the groups.
\<close>

theorem conditions_normalize:
  "conditions (map Elem names) = [names]
   \<and> ((\<exists>i \<in> set linked. isArray i) \<longrightarrow>
        conditions linked = map (\<lambda>i. case i of Arr g \<Rightarrow> g | Elem name \<Rightarrow> [name]) linked)
   \<and> set (flat linked) = (\<Union>g \<in> set (conditions linked). set g)"
proof (intro conjI impI)
  have "list_all isString (map Elem names)" by (induction names) simp_all
  then show "conditions (map Elem names) = [names]"
    by (simp add: conditions_def all_strings_no_array[symmetric] bareValues_map_Elem)
next
  assume "\<exists>i \<in> set linked. isArray i"
  then have "list_ex isArray linked" by (simp add: list_ex_iff)
  then show "conditions linked = map (\<lambda>i. case i of Arr g \<Rightarrow> g | Elem name \<Rightarrow> [name]) linked"
    by (simp add: conditions_def asArray_case)
next
  have "set (flat linked) = set (concat (conditions linked))" by (simp add: concat_conditions)
  then show "set (flat linked) = (\<Union>g \<in> set (conditions linked). set g)" by simp
qed

theorem conditions_normalize_witness:
  "conditions [Elem Images, Elem Videos] = [ [Images, Videos] ]
   \<and> conditions [Arr [Images, Videos], Elem Text] = [ [Images, Videos], [Text] ]
   \<and> set (flat [Arr [Images, Videos], Elem Text]) = {Images, Videos, Text}"
proof -
  have e: "\<exists>i \<in> set [Arr [Images, Videos], Elem Text]. isArray i" by simp
  from conditions_normalize [of "[Images, Videos]" "[Arr [Images, Videos], Elem Text]"] e
  show ?thesis by auto
qed

section \<open>Linked conditions and the remove flags\<close>

lemma checkedConditions_set:
  "set (map (\<lambda>(name, predicate). predicate n (reverseConditions (options cfg)))
          (filter (\<lambda>(name, predicate). \<not> shouldSkip cfg name
                     \<and> (strictlyTrue (removeGet (remove cfg) name)
                          \<or> lengthPositive (removeGet (remove cfg) name)))
             (CONDITIONS_MAP toLowerCase cfg)))
   = {effective toLowerCase cfg name n | name.
        name \<notin> set (flat (linkedConditions (options cfg))) \<and> spec_enabled cfg name}"
  unfolding CONDITIONS_MAP_entries filter_map set_map set_filter all_names
  by (auto simp: enabled_iff shouldSkip_def effective_def comp_def image_iff)

lemma independent_some:
  assumes "\<not> reverseConditions (options cfg)"
  shows "list_ex (\<lambda>(name, predicate). \<not> shouldSkip cfg name
                   \<and> truthy (removeGet (remove cfg) name)
                   \<and> predicate n (reverseConditions (options cfg))) (CONDITIONS_MAP toLowerCase cfg)
         \<longleftrightarrow> (\<exists>name. name \<notin> set (flat (linkedConditions (options cfg)))
                 \<and> spec_enabled cfg name \<and> atomic toLowerCase cfg name n)"
proof -
  have eq: "effective toLowerCase cfg name n = atomic toLowerCase cfg name n" for name
    using assms by (rule effective_plain)
  have "list_ex (\<lambda>(name, predicate). \<not> shouldSkip cfg name
                   \<and> truthy (removeGet (remove cfg) name)
                   \<and> predicate n (reverseConditions (options cfg))) (CONDITIONS_MAP toLowerCase cfg)
        \<longleftrightarrow> (\<exists>name. \<not> shouldSkip cfg name \<and> truthy (removeGet (remove cfg) name)
                \<and> atomic toLowerCase cfg name n)"
    unfolding CONDITIONS_MAP_entries list_ex_iff set_map all_names eq[symmetric] effective_def
    by auto
  also have "\<dots> \<longleftrightarrow> (\<exists>name. name \<notin> set (flat (linkedConditions (options cfg)))
                 \<and> spec_enabled cfg name \<and> atomic toLowerCase cfg name n)"
    using truthy_enabled[where cfg = cfg and n = n and toLowerCase = toLowerCase]
    by (auto simp: shouldSkip_def)
  finally show ?thesis .
qed

lemma decision_unlinked_plain:
  assumes "\<not> reverseConditions (options cfg)"
  shows "shouldRemoveNode toLowerCase cfg n \<longleftrightarrow>
           shouldRemoveByLinkedConditions toLowerCase cfg n = LINKED_TRUE
           \<or> (\<exists>name. name \<notin> set (flat (linkedConditions (options cfg)))
                 \<and> spec_enabled cfg name \<and> atomic toLowerCase cfg name n)"
  using assms independent_some[OF assms, of n toLowerCase]
  by (simp add: shouldRemoveNode_def Let_def)

lemma decision_unlinked_reversed:
  assumes "reverseConditions (options cfg)"
  shows "shouldRemoveNode toLowerCase cfg n \<longleftrightarrow>
           shouldRemoveByLinkedConditions toLowerCase cfg n \<noteq> LINKED_FALSE
           \<and> (\<forall>name. name \<notin> set (flat (linkedConditions (options cfg)))
                 \<and> spec_enabled cfg name \<longrightarrow> effective toLowerCase cfg name n)
           \<and> (shouldRemoveByLinkedConditions toLowerCase cfg n = LINKED_TRUE
               \<or> (\<exists>name. name \<notin> set (flat (linkedConditions (options cfg)))
                     \<and> spec_enabled cfg name \<and> effective toLowerCase cfg name n))"
proof -
  let ?S = "{effective toLowerCase cfg name n | name.
        name \<notin> set (flat (linkedConditions (options cfg))) \<and> spec_enabled cfg name}"
  have f: "False \<notin> ?S \<longleftrightarrow> (\<forall>name. name \<notin> set (flat (linkedConditions (options cfg)))
                 \<and> spec_enabled cfg name \<longrightarrow> effective toLowerCase cfg name n)"
    by auto
  have t: "True \<in> ?S \<longleftrightarrow> (\<exists>name. name \<notin> set (flat (linkedConditions (options cfg)))
                     \<and> spec_enabled cfg name \<and> effective toLowerCase cfg name n)"
    by auto
  show ?thesis
    using assms unfolding shouldRemoveNode_def Let_def checkedConditions_set f t by simp
qed

lemma conditions_nonempty: "flat linked \<noteq> [] \<Longrightarrow> conditions linked \<noteq> []"
  by (cases linked) (simp_all add: conditions_def)

lemma linked_true_plain:
  assumes "\<not> reverseConditions (options cfg)"
  shows "shouldRemoveByLinkedConditions toLowerCase cfg n = LINKED_TRUE \<longleftrightarrow>
           flat (linkedConditions (options cfg)) \<noteq> []
           \<and> (\<exists>g \<in> set (conditions (linkedConditions (options cfg))).
                 \<forall>name \<in> set g. atomic toLowerCase cfg name n)"
proof -
  have "checkLinkedConditions toLowerCase cfg n g = (\<forall>name \<in> set g. atomic toLowerCase cfg name n)" for g
    using assms effective_plain[OF assms, of toLowerCase _ n]
    by (simp add: checkLinkedConditions_def list_all_iff effective_def)
  then show ?thesis
    using assms by (auto simp: shouldRemoveByLinkedConditions_def LINKED_distinct image_iff)
qed

lemma linked_true_reversed:
  assumes "reverseConditions (options cfg)"
  shows "shouldRemoveByLinkedConditions toLowerCase cfg n = LINKED_TRUE \<longleftrightarrow>
           flat (linkedConditions (options cfg)) \<noteq> []
           \<and> (\<forall>g \<in> set (conditions (linkedConditions (options cfg))).
                 \<exists>name \<in> set g. effective toLowerCase cfg name n)"
proof -
  have c: "checkLinkedConditions toLowerCase cfg n g = (\<exists>name \<in> set g. effective toLowerCase cfg name n)" for g
    using assms by (simp add: checkLinkedConditions_def list_ex_iff effective_def)
  show ?thesis
  proof (cases "flat (linkedConditions (options cfg)) = []")
    case True
    then show ?thesis by (simp add: shouldRemoveByLinkedConditions_def LINKED_distinct)
  next
    case False
    then have "conditions (linkedConditions (options cfg)) \<noteq> []" by (rule conditions_nonempty)
    then obtain g0 where g0: "g0 \<in> set (conditions (linkedConditions (options cfg)))"
      by (cases "conditions (linkedConditions (options cfg))") auto
    let ?R = "checkLinkedConditions toLowerCase cfg n ` set (conditions (linkedConditions (options cfg)))"
    have "(True \<in> ?R \<and> False \<notin> ?R) \<longleftrightarrow>
          (\<forall>g \<in> set (conditions (linkedConditions (options cfg))). checkLinkedConditions toLowerCase cfg n g)"
      using g0 by (auto simp: image_iff)
    with False assms show ?thesis
      by (simp add: shouldRemoveByLinkedConditions_def LINKED_distinct c)
  qed
qed

lemma shouldRemoveStrings_cong:
  assumes "options cfg' = options cfg"
    and "containsStrings (remove cfg') = containsStrings (remove cfg)"
  shows "shouldRemoveStrings toLowerCase cfg' n r = shouldRemoveStrings toLowerCase cfg n r"
  using assms by (simp add: shouldRemoveStrings_def)

lemma CONDITIONS_MAP_cong:
  assumes "options cfg' = options cfg"
    and "containsStrings (remove cfg') = containsStrings (remove cfg)"
  shows "CONDITIONS_MAP toLowerCase cfg' = CONDITIONS_MAP toLowerCase cfg"
  using shouldRemoveStrings_cong[OF assms] by (simp add: CONDITIONS_MAP_def)

lemma shouldRemoveByLinkedConditions_cong:
  assumes "options cfg' = options cfg"
    and "containsStrings (remove cfg') = containsStrings (remove cfg)"
  shows "shouldRemoveByLinkedConditions toLowerCase cfg' n = shouldRemoveByLinkedConditions toLowerCase cfg n"
  using CONDITIONS_MAP_cong[OF assms] assms(1)
  by (simp add: shouldRemoveByLinkedConditions_def checkLinkedConditions_def CONDITIONS_MAP_get_def)

lemma shouldRemoveNode_flag_invariant:
  assumes o: "options cfg' = options cfg"
    and s: "containsStrings (remove cfg') = containsStrings (remove cfg)"
    and f: "\<forall>name. name \<notin> set (flat (linkedConditions (options cfg))) \<longrightarrow>
              removeGet (remove cfg') name = removeGet (remove cfg) name"
  shows "shouldRemoveNode toLowerCase cfg' n = shouldRemoveNode toLowerCase cfg n"
proof -
  have skip: "shouldSkip cfg' name = shouldSkip cfg name" for name
    using o by (simp add: shouldSkip_def)
  have get: "\<not> shouldSkip cfg name \<Longrightarrow> removeGet (remove cfg') name = removeGet (remove cfg) name"
    for name
    using f by (simp add: shouldSkip_def)
  have p1: "(\<lambda>(name, predicate :: 'c node \<Rightarrow> bool \<Rightarrow> bool). \<not> shouldSkip cfg' name
                \<and> (strictlyTrue (removeGet (remove cfg') name)
                     \<or> lengthPositive (removeGet (remove cfg') name)))
          = (\<lambda>(name, predicate). \<not> shouldSkip cfg name
                \<and> (strictlyTrue (removeGet (remove cfg) name)
                     \<or> lengthPositive (removeGet (remove cfg) name)))"
    using get by (auto simp: skip fun_eq_iff)
  have p2: "(\<lambda>(name, predicate). \<not> shouldSkip cfg' name
                \<and> truthy (removeGet (remove cfg') name)
                \<and> predicate n (reverseConditions (options cfg)))
          = (\<lambda>(name, predicate). \<not> shouldSkip cfg name
                \<and> truthy (removeGet (remove cfg) name)
                \<and> predicate n (reverseConditions (options cfg)))"
    using get by (auto simp: skip fun_eq_iff)
  show ?thesis
    unfolding shouldRemoveNode_def shouldRemoveByLinkedConditions_cong[OF o s]
      CONDITIONS_MAP_cong[OF o s] o p1 p2 ..
qed

lemma linked_example_discard:
  assumes "linkedConditions (options cfg) = [Arr [Images, Videos]]"
    and "\<not> reverseConditions (options cfg)"
    and "shouldRemoveImage n" and "shouldRemoveVideo n"
  shows "shouldRemoveNode toLowerCase cfg n"
  using assms
  by (simp add: shouldRemoveNode_def shouldRemoveByLinkedConditions_def conditions_def
        checkLinkedConditions_def CONDITIONS_MAP_get_simps)

lemma linked_example_keep:
  assumes "linkedConditions (options cfg) = [Arr [Images, Videos]]"
    and "\<not> reverseConditions (options cfg)"
    and "\<not> uncommented (remove cfg)" and "\<not> unliked (remove cfg)" and "\<not> text' (remove cfg)"
    and "containsStrings (remove cfg) = []"
    and "shouldRemoveImage n" and "\<not> shouldRemoveVideo n"
  shows "\<not> shouldRemoveNode toLowerCase cfg n"
  using assms
  by (simp add: shouldRemoveNode_def shouldRemoveByLinkedConditions_def conditions_def
        checkLinkedConditions_def CONDITIONS_MAP_get_simps CONDITIONS_MAP_def shouldSkip_def
        shouldRemoveStrings_def LINKED_distinct)

text \<open>
  Claim C6. A condition name that occurs anywhere in \<^verbatim>\<open>linkedConditions\<close> is left out
  of the independent evaluation, whichever name it is: in both modes the decision is made
  from the linked result and from the enabled names outside \<^verbatim>\<open>linkedConditions\<close> only.
  The linked result is made from the predicates of the names in the groups, whatever their
  remove entries say, so that two configurations that differ only in the remove entries of
  linked names decide alike. With the single group of \<^verbatim>\<open>images\<close> and \<^verbatim>\<open>videos\<close>, both
  remove flags false and no reversal, an entry with an image and a video is discarded, and
  an entry with an image and no video is kept (no other condition being enabled).
\<close>

theorem linked_names_skip_remove_flags:
  "(\<not> reverseConditions (options cfg) \<longrightarrow>
      (shouldRemoveNode toLowerCase cfg n \<longleftrightarrow>
         shouldRemoveByLinkedConditions toLowerCase cfg n = LINKED_TRUE
         \<or> (\<exists>name. name \<notin> set (flat (linkedConditions (options cfg)))
               \<and> spec_enabled cfg name \<and> atomic toLowerCase cfg name n)))
   \<and> (reverseConditions (options cfg) \<longrightarrow>
      (shouldRemoveNode toLowerCase cfg n \<longleftrightarrow>
         shouldRemoveByLinkedConditions toLowerCase cfg n \<noteq> LINKED_FALSE
         \<and> (\<forall>name. name \<notin> set (flat (linkedConditions (options cfg)))
               \<and> spec_enabled cfg name \<longrightarrow> effective toLowerCase cfg name n)
         \<and> (shouldRemoveByLinkedConditions toLowerCase cfg n = LINKED_TRUE
             \<or> (\<exists>name. name \<notin> set (flat (linkedConditions (options cfg)))
                   \<and> spec_enabled cfg name \<and> effective toLowerCase cfg name n))))
   \<and> (shouldRemoveByLinkedConditions toLowerCase cfg n = LINKED_NONE
        \<longleftrightarrow> flat (linkedConditions (options cfg)) = [])
   \<and> (\<not> reverseConditions (options cfg) \<longrightarrow>
      (shouldRemoveByLinkedConditions toLowerCase cfg n = LINKED_TRUE \<longleftrightarrow>
         flat (linkedConditions (options cfg)) \<noteq> []
         \<and> (\<exists>g \<in> set (conditions (linkedConditions (options cfg))).
               \<forall>name \<in> set g. atomic toLowerCase cfg name n)))
   \<and> (reverseConditions (options cfg) \<longrightarrow>
      (shouldRemoveByLinkedConditions toLowerCase cfg n = LINKED_TRUE \<longleftrightarrow>
         flat (linkedConditions (options cfg)) \<noteq> []
         \<and> (\<forall>g \<in> set (conditions (linkedConditions (options cfg))).
               \<exists>name \<in> set g. effective toLowerCase cfg name n)))
   \<and> (options cfg' = options cfg \<and> containsStrings (remove cfg') = containsStrings (remove cfg)
        \<and> (\<forall>name. name \<notin> set (flat (linkedConditions (options cfg))) \<longrightarrow>
              removeGet (remove cfg') name = removeGet (remove cfg) name)
       \<longrightarrow> shouldRemoveNode toLowerCase cfg' n = shouldRemoveNode toLowerCase cfg n)
   \<and> (linkedConditions (options cfg) = [Arr [Images, Videos]] \<and> \<not> reverseConditions (options cfg)
        \<and> \<not> images (remove cfg) \<and> \<not> videos (remove cfg)
       \<longrightarrow> (shouldRemoveImage n \<and> shouldRemoveVideo n \<longrightarrow> shouldRemoveNode toLowerCase cfg n)
         \<and> (shouldRemoveImage n \<and> \<not> shouldRemoveVideo n
              \<and> \<not> uncommented (remove cfg) \<and> \<not> unliked (remove cfg) \<and> \<not> text' (remove cfg)
              \<and> containsStrings (remove cfg) = []
             \<longrightarrow> \<not> shouldRemoveNode toLowerCase cfg n))"
proof (intro conjI)
  show "\<not> reverseConditions (options cfg) \<longrightarrow>
      (shouldRemoveNode toLowerCase cfg n \<longleftrightarrow>
         shouldRemoveByLinkedConditions toLowerCase cfg n = LINKED_TRUE
         \<or> (\<exists>name. name \<notin> set (flat (linkedConditions (options cfg)))
               \<and> spec_enabled cfg name \<and> atomic toLowerCase cfg name n))"
    using decision_unlinked_plain by blast
  show "reverseConditions (options cfg) \<longrightarrow>
      (shouldRemoveNode toLowerCase cfg n \<longleftrightarrow>
         shouldRemoveByLinkedConditions toLowerCase cfg n \<noteq> LINKED_FALSE
         \<and> (\<forall>name. name \<notin> set (flat (linkedConditions (options cfg)))
               \<and> spec_enabled cfg name \<longrightarrow> effective toLowerCase cfg name n)
         \<and> (shouldRemoveByLinkedConditions toLowerCase cfg n = LINKED_TRUE
             \<or> (\<exists>name. name \<notin> set (flat (linkedConditions (options cfg)))
                   \<and> spec_enabled cfg name \<and> effective toLowerCase cfg name n)))"
    using decision_unlinked_reversed by blast
  show "shouldRemoveByLinkedConditions toLowerCase cfg n = LINKED_NONE
        \<longleftrightarrow> flat (linkedConditions (options cfg)) = []"
    by (simp add: shouldRemoveByLinkedConditions_def LINKED_distinct)
  show "\<not> reverseConditions (options cfg) \<longrightarrow>
      (shouldRemoveByLinkedConditions toLowerCase cfg n = LINKED_TRUE \<longleftrightarrow>
         flat (linkedConditions (options cfg)) \<noteq> []
         \<and> (\<exists>g \<in> set (conditions (linkedConditions (options cfg))).
               \<forall>name \<in> set g. atomic toLowerCase cfg name n))"
    using linked_true_plain by blast
  show "reverseConditions (options cfg) \<longrightarrow>
      (shouldRemoveByLinkedConditions toLowerCase cfg n = LINKED_TRUE \<longleftrightarrow>
         flat (linkedConditions (options cfg)) \<noteq> []
         \<and> (\<forall>g \<in> set (conditions (linkedConditions (options cfg))).
               \<exists>name \<in> set g. effective toLowerCase cfg name n))"
    using linked_true_reversed by blast
  show "options cfg' = options cfg \<and> containsStrings (remove cfg') = containsStrings (remove cfg)
        \<and> (\<forall>name. name \<notin> set (flat (linkedConditions (options cfg))) \<longrightarrow>
              removeGet (remove cfg') name = removeGet (remove cfg) name)
       \<longrightarrow> shouldRemoveNode toLowerCase cfg' n = shouldRemoveNode toLowerCase cfg n"
    using shouldRemoveNode_flag_invariant[of cfg' cfg toLowerCase n] by blast
  show "linkedConditions (options cfg) = [Arr [Images, Videos]] \<and> \<not> reverseConditions (options cfg)
        \<and> \<not> images (remove cfg) \<and> \<not> videos (remove cfg)
       \<longrightarrow> (shouldRemoveImage n \<and> shouldRemoveVideo n \<longrightarrow> shouldRemoveNode toLowerCase cfg n)
         \<and> (shouldRemoveImage n \<and> \<not> shouldRemoveVideo n
              \<and> \<not> uncommented (remove cfg) \<and> \<not> unliked (remove cfg) \<and> \<not> text' (remove cfg)
              \<and> containsStrings (remove cfg) = []
             \<longrightarrow> \<not> shouldRemoveNode toLowerCase cfg n)"
    using linked_example_discard[of cfg n toLowerCase] linked_example_keep[of cfg n toLowerCase]
    by blast
qed

theorem linked_names_skip_remove_flags_witness:
  "shouldRemoveNode asciiToLowerCase linkedMediaConfig mediaNode
   \<and> \<not> shouldRemoveNode asciiToLowerCase linkedMediaConfig imageNode
   \<and> \<not> images (remove linkedMediaConfig) \<and> \<not> videos (remove linkedMediaConfig)
   \<and> ContainsStrings \<in> set (flat (linkedConditions (options linkedStringsConfig)))
   \<and> spec_enabled linkedStringsConfig ContainsStrings
   \<and> atomic asciiToLowerCase linkedStringsConfig ContainsStrings commentedNode
   \<and> shouldRemoveByLinkedConditions asciiToLowerCase linkedStringsConfig commentedNode
        = LINKED_FALSE
   \<and> \<not> shouldRemoveNode asciiToLowerCase linkedStringsConfig commentedNode"
proof -
  have l: "linkedConditions (options linkedMediaConfig) = [Arr [Images, Videos]]" by code_simp
  have r: "\<not> reverseConditions (options linkedMediaConfig)" by code_simp
  have f: "\<not> images (remove linkedMediaConfig) \<and> \<not> videos (remove linkedMediaConfig)
           \<and> \<not> uncommented (remove linkedMediaConfig) \<and> \<not> unliked (remove linkedMediaConfig)
           \<and> \<not> text' (remove linkedMediaConfig) \<and> containsStrings (remove linkedMediaConfig) = []"
    by code_simp
  have m: "shouldRemoveImage mediaNode \<and> shouldRemoveVideo mediaNode" by code_simp
  have i: "shouldRemoveImage imageNode \<and> \<not> shouldRemoveVideo imageNode" by code_simp
  have s: "ContainsStrings \<in> set (flat (linkedConditions (options linkedStringsConfig)))
           \<and> spec_enabled linkedStringsConfig ContainsStrings
           \<and> atomic asciiToLowerCase linkedStringsConfig ContainsStrings commentedNode"
    by code_simp
  have r': "\<not> reverseConditions (options linkedStringsConfig)" by code_simp
  have lf: "shouldRemoveByLinkedConditions asciiToLowerCase linkedStringsConfig commentedNode
              = LINKED_FALSE"
    by code_simp
  have e: "spec_enabled linkedStringsConfig name \<Longrightarrow>
             name \<in> set (flat (linkedConditions (options linkedStringsConfig)))" for name
    by (cases name) (simp_all add: linkedStringsConfig_def defaultConfig_def)
  note ex = linked_names_skip_remove_flags
         [where toLowerCase = asciiToLowerCase and cfg = linkedMediaConfig
            and cfg' = linkedMediaConfig,
          THEN conjunct2, THEN conjunct2, THEN conjunct2, THEN conjunct2, THEN conjunct2,
          THEN conjunct2]
  have d: "shouldRemoveNode asciiToLowerCase linkedMediaConfig mediaNode"
    using ex [of mediaNode] l r f m by blast
  have k: "\<not> shouldRemoveNode asciiToLowerCase linkedMediaConfig imageNode"
    using ex [of imageNode] l r f i by blast
  have ks: "\<not> shouldRemoveNode asciiToLowerCase linkedStringsConfig commentedNode"
    using linked_names_skip_remove_flags
            [where toLowerCase = asciiToLowerCase and cfg = linkedStringsConfig
               and cfg' = linkedStringsConfig and n = commentedNode, THEN conjunct1]
      r' lf e LINKED_distinct(4)
    by auto
  from d k ks f s lf show ?thesis by simp
qed

text \<open>
  Claim C10. When \<^verbatim>\<open>linkedConditions\<close> holds an empty group and at least one condition
  name: without reversal the empty group's check is true, the linked result is
  \<open>LINKED_TRUE\<close> and every entry is discarded; under reversal the empty group's check is
  false, the linked result is \<open>LINKED_FALSE\<close> and every entry is kept.
\<close>

theorem empty_linked_group:
  assumes "Arr [] \<in> set (linkedConditions (options cfg))"
    and "flat (linkedConditions (options cfg)) \<noteq> []"
  shows "(\<not> reverseConditions (options cfg) \<longrightarrow>
            checkLinkedConditions toLowerCase cfg n [] \<and> shouldRemoveByLinkedConditions toLowerCase cfg n = LINKED_TRUE
            \<and> shouldRemoveNode toLowerCase cfg n)
       \<and> (reverseConditions (options cfg) \<longrightarrow>
            \<not> checkLinkedConditions toLowerCase cfg n [] \<and> shouldRemoveByLinkedConditions toLowerCase cfg n = LINKED_FALSE
            \<and> \<not> shouldRemoveNode toLowerCase cfg n)"
proof (intro conjI impI)
  assume nr: "\<not> reverseConditions (options cfg)"
  then show c: "checkLinkedConditions toLowerCase cfg n []" by (simp add: checkLinkedConditions_def)
  have "checkLinkedConditions toLowerCase cfg n [] \<in> set (groupResults toLowerCase cfg n)"
    unfolding groupResults_def set_map using empty_group_in_conditions[OF assms(1)] by (rule imageI)
  with c have "True \<in> set (groupResults toLowerCase cfg n)" by simp
  with nr assms(2) show l: "shouldRemoveByLinkedConditions toLowerCase cfg n = LINKED_TRUE"
    by (simp add: shouldRemoveByLinkedConditions_def groupResults_def)
  with nr show "shouldRemoveNode toLowerCase cfg n" by (simp add: shouldRemoveNode_def)
next
  assume r: "reverseConditions (options cfg)"
  then show c: "\<not> checkLinkedConditions toLowerCase cfg n []" by (simp add: checkLinkedConditions_def)
  have "checkLinkedConditions toLowerCase cfg n [] \<in> set (groupResults toLowerCase cfg n)"
    unfolding groupResults_def set_map using empty_group_in_conditions[OF assms(1)] by (rule imageI)
  with c have "False \<in> set (groupResults toLowerCase cfg n)" by simp
  with r assms(2) show l: "shouldRemoveByLinkedConditions toLowerCase cfg n = LINKED_FALSE"
    by (simp add: shouldRemoveByLinkedConditions_def groupResults_def)
  with r show "\<not> shouldRemoveNode toLowerCase cfg n" by (simp add: shouldRemoveNode_def)
qed

theorem empty_linked_group_witness:
  "shouldRemoveNode asciiToLowerCase emptyGroupConfig plainNode \<and> shouldRemoveNode asciiToLowerCase emptyGroupConfig mediaNode
   \<and> \<not> shouldRemoveNode asciiToLowerCase reversedEmptyGroupConfig plainNode
   \<and> \<not> shouldRemoveNode asciiToLowerCase reversedEmptyGroupConfig mediaNode"
proof -
  have a: "Arr [] \<in> set (linkedConditions (options emptyGroupConfig))" by code_simp
  have b: "flat (linkedConditions (options emptyGroupConfig)) \<noteq> []" by code_simp
  have r: "\<not> reverseConditions (options emptyGroupConfig)" by code_simp
  have a': "Arr [] \<in> set (linkedConditions (options reversedEmptyGroupConfig))" by code_simp
  have b': "flat (linkedConditions (options reversedEmptyGroupConfig)) \<noteq> []" by code_simp
  have r': "reverseConditions (options reversedEmptyGroupConfig)" by code_simp
  from empty_linked_group [OF a b, of asciiToLowerCase plainNode] empty_linked_group [OF a b, of asciiToLowerCase mediaNode]
    empty_linked_group [OF a' b', of asciiToLowerCase plainNode] empty_linked_group [OF a' b', of asciiToLowerCase mediaNode] r r'
  show ?thesis by blast
qed

section \<open>The accepted counter\<close>

text \<open>
  Claim C9. Processing one entry either removes it, when the decision is to discard, and
  leaves the counter as it was, or keeps it and adds exactly one to the counter; the reset
  sets the counter to zero; and no other method of the handler changes the counter.
\<close>

theorem removeEntry_counter:
  "(shouldRemoveNode toLowerCase (handlerConfig this) n \<longrightarrow>
      fst (removeEntry toLowerCase this n)
      \<and> currentLoadCount (snd (removeEntry toLowerCase this n)) = currentLoadCount this)
   \<and> (\<not> shouldRemoveNode toLowerCase (handlerConfig this) n \<longrightarrow>
      \<not> fst (removeEntry toLowerCase this n)
      \<and> currentLoadCount (snd (removeEntry toLowerCase this n)) = currentLoadCount this + 1)
   \<and> currentLoadCount (resetState this) = 0
   \<and> ((\<forall>m. call \<noteq> CallRemoveEntry m) \<and> call \<noteq> CallResetState \<longrightarrow>
        currentLoadCount (handlerStep toLowerCase this call) = currentLoadCount this)
   \<and> handlerConfig (handlerStep toLowerCase this call) = handlerConfig this"
  by (cases call) (simp_all add: removeEntry_def resetState_def)

theorem removeEntry_counter_witness:
  "currentLoadCount (snd (removeEntry asciiToLowerCase (newActivityHandler uncommentedConfig) plainNode)) = 0
   \<and> currentLoadCount (snd (removeEntry asciiToLowerCase (newActivityHandler uncommentedConfig) commentedNode)) = 1
   \<and> fst (removeEntry asciiToLowerCase (newActivityHandler uncommentedConfig) plainNode)
   \<and> currentLoadCount
        (resetState (snd (removeEntry asciiToLowerCase (newActivityHandler uncommentedConfig) commentedNode))) = 0
   \<and> currentLoadCount
        (handlerStep asciiToLowerCase (snd (removeEntry asciiToLowerCase (newActivityHandler uncommentedConfig) commentedNode))
           (CallShouldRemoveText plainNode)) = 1"
proof -
  have c: "handlerConfig (newActivityHandler uncommentedConfig) = uncommentedConfig"
    by (simp add: newActivityHandler_def)
  have z: "currentLoadCount (newActivityHandler uncommentedConfig) = 0"
    by (simp add: newActivityHandler_def)
  have d: "shouldRemoveNode asciiToLowerCase uncommentedConfig plainNode" by code_simp
  have k: "\<not> shouldRemoveNode asciiToLowerCase uncommentedConfig commentedNode" by code_simp
  from removeEntry_counter [of asciiToLowerCase "newActivityHandler uncommentedConfig" plainNode CallResetState]
    removeEntry_counter [of asciiToLowerCase "newActivityHandler uncommentedConfig" commentedNode CallResetState]
    removeEntry_counter [of asciiToLowerCase "snd (removeEntry asciiToLowerCase (newActivityHandler uncommentedConfig) commentedNode)"
      plainNode "CallShouldRemoveText plainNode"]
    c z d k
  show ?thesis by simp
qed

end
